theory Spec2Isabelle
  imports Main
begin

section \<open>The Event Sink: database.py\<close>

text \<open>
  The SQLite database of \<^verbatim>\<open>database.py\<close> is a record of its tables, each table a
  list of rows in insertion order. Timestamps (\<^verbatim>\<open>datetime.now()\<close>), the computed
  duration of a resting period and the \<^verbatim>\<open>hourly_stats\<close> table (never populated) are
  left out; a column that is NULL until an UPDATE fills it is an \<open>option\<close> or a flag.
  The status column holds one of the three strings \<^verbatim>\<open>idle\<close>, \<^verbatim>\<open>moving_up\<close>,
  \<^verbatim>\<open>moving_down\<close>.

  Besides the tables the record keeps \<open>calls\<close>, the sequence of method invocations the
  database has received, oldest first: the instants at which the outside can observe the
  core are the points between two such invocations.
\<close>

datatype status = Idle | MovingUp | MovingDown

record demand_row =
  d_id :: int
  d_origin_floor :: int
  d_destination_floor :: int
  d_elevator_id :: int
  d_wait_time :: "int option"

record journey_row =
  j_id :: int
  j_elevator_id :: int
  j_start_floor :: int
  j_end_floor :: "int option"
  j_passenger_count :: int

record resting_row =
  r_id :: int
  r_elevator_id :: int
  r_floor :: int
  r_ended :: bool

datatype sink_call =
    InitializeElevators int int
  | UpdateElevatorStatus int int status
  | RecordDemand int int int "int option"
  | StartJourney int int int int
  | EndJourney int int
  | StartRestingPeriod int int int
  | EndRestingPeriod int

record database =
  elevators_tbl :: "(int \<times> int \<times> status) list"
  demands :: "demand_row list"
  journeys :: "journey_row list"
  resting_periods :: "resting_row list"
  calls :: "sink_call list"

text \<open>
  \<^verbatim>\<open>cursor.lastrowid\<close> after an INSERT into a table with an INTEGER PRIMARY KEY: one
  more than the largest key in use, and 1 in an empty table.
\<close>

definition lastrowid :: "int list \<Rightarrow> int" where
  "lastrowid ids = fold max ids 0 + 1"

text \<open>A new database file: \<^verbatim>\<open>create_tables\<close> leaves every table empty.\<close>

definition ElevatorDatabase_init :: database where
  "ElevatorDatabase_init =
     \<lparr>elevators_tbl = [], demands = [], journeys = [], resting_periods = [], calls = []\<rparr>"

definition initialize_elevators :: "database \<Rightarrow> int \<Rightarrow> int \<Rightarrow> database" where
  "initialize_elevators d num_elevators num_floors =
     d\<lparr>elevators_tbl := map (\<lambda>i. (i, 0, Idle)) [1..num_elevators],
       demands := [], journeys := [], resting_periods := [],
       calls := calls d @ [InitializeElevators num_elevators num_floors]\<rparr>"

definition update_elevator_status :: "database \<Rightarrow> int \<Rightarrow> int \<Rightarrow> status \<Rightarrow> database" where
  "update_elevator_status d elevator_id flr st =
     d\<lparr>elevators_tbl :=
         map (\<lambda>(i, f, s). if i = elevator_id then (i, flr, st) else (i, f, s)) (elevators_tbl d),
       calls := calls d @ [UpdateElevatorStatus elevator_id flr st]\<rparr>"

definition record_demand ::
  "database \<Rightarrow> int \<Rightarrow> int \<Rightarrow> int \<Rightarrow> int option \<Rightarrow> int \<times> database" where
  "record_demand d origin_floor destination_floor elevator_id wait_time =
     (let demand_id = lastrowid (map d_id (demands d)) in
      (demand_id,
       d\<lparr>demands := demands d @
            [\<lparr>d_id = demand_id, d_origin_floor = origin_floor,
              d_destination_floor = destination_floor, d_elevator_id = elevator_id,
              d_wait_time = wait_time\<rparr>],
         calls := calls d @ [RecordDemand origin_floor destination_floor elevator_id wait_time]\<rparr>))"

definition db_start_journey :: "database \<Rightarrow> int \<Rightarrow> int \<Rightarrow> int \<Rightarrow> int \<times> database" where
  "db_start_journey d elevator_id start_floor passenger_count =
     (let journey_id = lastrowid (map j_id (journeys d)) in
      (journey_id,
       d\<lparr>journeys := journeys d @
            [\<lparr>j_id = journey_id, j_elevator_id = elevator_id, j_start_floor = start_floor,
              j_end_floor = None, j_passenger_count = passenger_count\<rparr>],
         calls := calls d @ [StartJourney journey_id elevator_id start_floor passenger_count]\<rparr>))"

definition db_end_journey :: "database \<Rightarrow> int \<Rightarrow> int \<Rightarrow> database" where
  "db_end_journey d journey_id end_floor =
     d\<lparr>journeys :=
         map (\<lambda>j. if j_id j = journey_id then j\<lparr>j_end_floor := Some end_floor\<rparr> else j) (journeys d),
       calls := calls d @ [EndJourney journey_id end_floor]\<rparr>"

definition start_resting_period :: "database \<Rightarrow> int \<Rightarrow> int \<Rightarrow> int \<times> database" where
  "start_resting_period d elevator_id flr =
     (let resting_id = lastrowid (map r_id (resting_periods d)) in
      (resting_id,
       d\<lparr>resting_periods := resting_periods d @
            [\<lparr>r_id = resting_id, r_elevator_id = elevator_id, r_floor = flr, r_ended = False\<rparr>],
         calls := calls d @ [StartRestingPeriod resting_id elevator_id flr]\<rparr>))"

text \<open>
  \<^verbatim>\<open>end_resting_period\<close> finds the row by its id and, if there is one, fills its end
  time and duration; with no such row nothing is updated.
\<close>

definition end_resting_period :: "database \<Rightarrow> int \<Rightarrow> database" where
  "end_resting_period d resting_id =
     d\<lparr>resting_periods :=
         map (\<lambda>r. if r_id r = resting_id then r\<lparr>r_ended := True\<rparr> else r) (resting_periods d),
       calls := calls d @ [EndRestingPeriod resting_id]\<rparr>"

section \<open>The elevator: class Elevator of elevator\_model.py\<close>

text \<open>
  An \<^verbatim>\<open>Elevator\<close> object is a record of its attributes; the shared \<^verbatim>\<open>db\<close> object is
  passed in and returned. The handles \<^verbatim>\<open>current_resting_id\<close> and
  \<^verbatim>\<open>current_journey_id\<close> are \<^verbatim>\<open>None\<close> or a row id. Python's truth test of a handle
  (\<^verbatim>\<open>if self.current_journey_id:\<close>) holds for a row id other than 0.
\<close>

record elevator =
  elev_id :: int
  current_floor :: int
  status :: status
  total_floors :: int
  current_resting_id :: "int option"
  current_journey_id :: "int option"

definition truthy :: "int option \<Rightarrow> bool" where
  "truthy h = (case h of None \<Rightarrow> False | Some i \<Rightarrow> i \<noteq> 0)"

definition start_resting :: "elevator \<Rightarrow> database \<Rightarrow> elevator \<times> database" where
  "start_resting e d =
     (if status e = Idle \<and> current_resting_id e = None then
        (let (rid, d') = start_resting_period d (elev_id e) (current_floor e)
         in (e\<lparr>current_resting_id := Some rid\<rparr>, d'))
      else (e, d))"

definition end_resting :: "elevator \<Rightarrow> database \<Rightarrow> elevator \<times> database" where
  "end_resting e d =
     (case current_resting_id e of
        None \<Rightarrow> (e, d)
      | Some rid \<Rightarrow> (e\<lparr>current_resting_id := None\<rparr>, end_resting_period d rid))"

definition Elevator_init :: "int \<Rightarrow> int \<Rightarrow> database \<Rightarrow> elevator \<times> database" where
  "Elevator_init i nfloors d =
     (let e = \<lparr>elev_id = i, current_floor = 0, status = Idle, total_floors = nfloors,
               current_resting_id = None, current_journey_id = None\<rparr>;
          d1 = update_elevator_status d i 0 Idle
      in start_resting e d1)"

text \<open>
  \<^verbatim>\<open>move\<close> returns the travel time, the floor distance (the float \<^verbatim>\<open>0.0\<close> of the
  early return is the number 0); the \<^verbatim>\<open>time.sleep\<close> has no effect on the state.
\<close>

definition move :: "elevator \<Rightarrow> int \<Rightarrow> database \<Rightarrow> int \<times> elevator \<times> database" where
  "move e destination_floor d =
     (if current_floor e = destination_floor then (0, e, d)
      else
        let (e1, d1) =
              (if status e = Idle \<and> truthy (current_resting_id e)
               then (e\<lparr>current_resting_id := None\<rparr>,
                     end_resting_period d (the (current_resting_id e)))
               else (e, d));
            e2 = e1\<lparr>status := (if destination_floor > current_floor e1 then MovingUp else MovingDown)\<rparr>;
            d2 = update_elevator_status d1 (elev_id e2) (current_floor e2) (status e2);
            travel_time = \<bar>destination_floor - current_floor e2\<bar>;
            e3 = e2\<lparr>current_floor := destination_floor, status := Idle\<rparr>;
            d3 = update_elevator_status d2 (elev_id e3) (current_floor e3) (status e3);
            (rid, d4) = start_resting_period d3 (elev_id e3) (current_floor e3)
        in (travel_time, e3\<lparr>current_resting_id := Some rid\<rparr>, d4))"

definition start_journey :: "elevator \<Rightarrow> int \<Rightarrow> int \<Rightarrow> database \<Rightarrow> int \<times> elevator \<times> database" where
  "start_journey e start_floor passenger_count d =
     (let (jid, d') = db_start_journey d (elev_id e) start_floor passenger_count
      in (jid, e\<lparr>current_journey_id := Some jid\<rparr>, d'))"

definition end_journey :: "elevator \<Rightarrow> int \<Rightarrow> database \<Rightarrow> elevator \<times> database" where
  "end_journey e end_floor d =
     (if truthy (current_journey_id e)
      then (e\<lparr>current_journey_id := None\<rparr>, db_end_journey d (the (current_journey_id e)) end_floor)
      else (e, d))"

definition move_to_optimal_resting_floor ::
  "elevator \<Rightarrow> int \<Rightarrow> database \<Rightarrow> bool \<times> elevator \<times> database" where
  "move_to_optimal_resting_floor e optimal_floor d =
     (if status e \<noteq> Idle then (False, e, d)
      else let (travel_time, e', d') = move e optimal_floor d in (travel_time > 0, e', d'))"

section \<open>The dispatcher: class ElevatorSystem of elevator\_model.py\<close>

text \<open>
  The system owns the list of its elevators and the database. A method that can raise
  returns the exception or its value, together with the state it leaves behind: an
  exception does not undo what was done before it.
\<close>

datatype message = SameFloors | FloorsBetween int | FloorBetween int

datatype error = ValueError message | AttributeError

record system =
  num_elevators :: int
  num_floors :: int
  db :: database
  elevators :: "elevator list"

fun create_elevators ::
  "int list \<Rightarrow> int \<Rightarrow> elevator list \<Rightarrow> database \<Rightarrow> elevator list \<times> database" where
  "create_elevators [] nfloors es d = (es, d)"
| "create_elevators (i # is) nfloors es d =
     (let (e, d') = Elevator_init i nfloors d in create_elevators is nfloors (es @ [e]) d')"

definition ElevatorSystem_init :: "int \<Rightarrow> int \<Rightarrow> database \<Rightarrow> system" where
  "ElevatorSystem_init n nfloors d =
     (let d1 = initialize_elevators d n nfloors;
          (es, d2) = create_elevators [1..n] nfloors [] d1
      in \<lparr>num_elevators = n, num_floors = nfloors, db = d2, elevators = es\<rparr>)"

text \<open>
  The selection loop of \<^verbatim>\<open>request_elevator\<close>. \<^verbatim>\<open>assigned_elevator\<close> is a reference
  into the fleet, here the position of the elevator in the list; \<^verbatim>\<open>min_distance\<close>
  starts at \<^verbatim>\<open>float("inf")\<close>, here \<open>None\<close>, below which every distance lies.
\<close>

definition below :: "int \<Rightarrow> int option \<Rightarrow> bool" where
  "below distance min_distance = (case min_distance of None \<Rightarrow> True | Some m \<Rightarrow> distance < m)"

fun closest :: "elevator list \<Rightarrow> int \<Rightarrow> nat \<Rightarrow> nat option \<times> int option \<Rightarrow> nat option \<times> int option" where
  "closest [] origin_floor i acc = acc"
| "closest (e # es) origin_floor i (assigned, min_distance) =
     (let distance = \<bar>current_floor e - origin_floor\<bar> in
      if below distance min_distance
      then closest es origin_floor (Suc i) (Some i, Some distance)
      else closest es origin_floor (Suc i) (assigned, min_distance))"

definition request_elevator :: "system \<Rightarrow> int \<Rightarrow> int \<Rightarrow> (error + int \<times> int) \<times> system" where
  "request_elevator s origin_floor destination_floor =
     (if origin_floor = destination_floor then (Inl (ValueError SameFloors), s)
      else if \<not> (0 \<le> origin_floor \<and> origin_floor < num_floors s
                 \<and> 0 \<le> destination_floor \<and> destination_floor < num_floors s)
      then (Inl (ValueError (FloorsBetween (num_floors s - 1))), s)
      else
        case closest (elevators s) origin_floor 0 (None, None) of
          (None, min_distance) \<Rightarrow> (Inl AttributeError, s)
        | (Some k, min_distance) \<Rightarrow>
            let e0 = elevators s ! k;
                wait_time = min_distance;
                (demand_id, d1) =
                  record_demand (db s) origin_floor destination_floor (elev_id e0) wait_time;
                (jid, e1, d2) = start_journey e0 (current_floor e0) 1 d1;
                (pickup_time, e2, d3) = move e1 origin_floor d2;
                (travel_time, e3, d4) = move e2 destination_floor d3;
                (e4, d5) = end_journey e3 destination_floor d4;
                total_time = pickup_time + travel_time
            in (Inr (elev_id e4, total_time), s\<lparr>db := d5, elevators := (elevators s)[k := e4]\<rparr>))"

definition get_elevators_status :: "system \<Rightarrow> (int \<times> int \<times> status) list" where
  "get_elevators_status s = map (\<lambda>e. (elev_id e, current_floor e, status e)) (elevators s)"

text \<open>
  The loop of \<^verbatim>\<open>move_elevator_to_resting_floor\<close>: the first elevator with the id that
  is idle is moved, the result of \<^verbatim>\<open>move_to_optimal_resting_floor\<close> is dropped and
  the method returns \<^verbatim>\<open>True\<close>; with no such elevator it returns \<^verbatim>\<open>False\<close>.
\<close>

fun resting_loop ::
  "elevator list \<Rightarrow> int \<Rightarrow> int \<Rightarrow> database \<Rightarrow> bool \<times> elevator list \<times> database" where
  "resting_loop [] elevator_id optimal_floor d = (False, [], d)"
| "resting_loop (e # es) elevator_id optimal_floor d =
     (if elev_id e = elevator_id \<and> status e = Idle then
        (let (moved, e', d') = move_to_optimal_resting_floor e optimal_floor d
         in (True, e' # es, d'))
      else
        (let (r, es', d') = resting_loop es elevator_id optimal_floor d
         in (r, e # es', d')))"

definition move_elevator_to_resting_floor :: "system \<Rightarrow> int \<Rightarrow> int \<Rightarrow> (error + bool) \<times> system" where
  "move_elevator_to_resting_floor s elevator_id optimal_floor =
     (if \<not> (0 \<le> optimal_floor \<and> optimal_floor < num_floors s)
      then (Inl (ValueError (FloorBetween (num_floors s - 1))), s)
      else
        let (r, es', d') = resting_loop (elevators s) elevator_id optimal_floor (db s)
        in (Inr r, s\<lparr>db := d', elevators := es'\<rparr>))"

section \<open>Sessions: sequences of dispatcher operations\<close>

text \<open>
  The operations the dispatcher offers to its callers. A session creates the fleet and
  then performs operations one after the other; a caller that catches the exception of
  one operation goes on with the state that operation left.
\<close>

datatype command =
    RequestElevator int int
  | MoveElevatorToRestingFloor int int
  | GetElevatorsStatus

fun exec :: "system \<Rightarrow> command \<Rightarrow> system" where
  "exec s (RequestElevator origin_floor destination_floor) =
     snd (request_elevator s origin_floor destination_floor)"
| "exec s (MoveElevatorToRestingFloor elevator_id optimal_floor) =
     snd (move_elevator_to_resting_floor s elevator_id optimal_floor)"
| "exec s GetElevatorsStatus = s"

definition run :: "int \<Rightarrow> int \<Rightarrow> database \<Rightarrow> command list \<Rightarrow> system" where
  "run n nfloors d cmds = foldl exec (ElevatorSystem_init n nfloors d) cmds"


text \<open>
  Requests made one after the other, as long as each of them completes: the first
  exception ends the sequence.
\<close>

fun request_all :: "system \<Rightarrow> (int \<times> int) list \<Rightarrow> error + system" where
  "request_all s [] = Inr s"
| "request_all s ((origin_floor, destination_floor) # rs) =
     (case request_elevator s origin_floor destination_floor of
        (Inl err, s') \<Rightarrow> Inl err
      | (Inr r, s') \<Rightarrow> request_all s' rs)"

section \<open>Open journeys and resting periods at the Event Sink\<close>












section \<open>A fleet with a busy elevator\<close>

text \<open>
  Three elevators on ten floors: the first idle at floor 0, the second at floor 4 and
  moving up, the third idle at floor 4.
\<close>

definition busy_fleet :: system where
  "busy_fleet =
     \<lparr>num_elevators = 3, num_floors = 10,
      db = \<lparr>elevators_tbl = [(1, 0, Idle), (2, 4, MovingUp), (3, 4, Idle)],
             demands = [], journeys = [],
             resting_periods =
               [\<lparr>r_id = 1, r_elevator_id = 1, r_floor = 0, r_ended = False\<rparr>,
                \<lparr>r_id = 2, r_elevator_id = 2, r_floor = 0, r_ended = True\<rparr>,
                \<lparr>r_id = 3, r_elevator_id = 3, r_floor = 4, r_ended = False\<rparr>],
             calls = []\<rparr>,
      elevators =
        [\<lparr>elev_id = 1, current_floor = 0, status = Idle, total_floors = 10,
           current_resting_id = Some 1, current_journey_id = None\<rparr>,
         \<lparr>elev_id = 2, current_floor = 4, status = MovingUp, total_floors = 10,
           current_resting_id = None, current_journey_id = None\<rparr>,
         \<lparr>elev_id = 3, current_floor = 4, status = Idle, total_floors = 10,
           current_resting_id = Some 3, current_journey_id = None\<rparr>]\<rparr>"

section \<open>The invariant of the fleet\<close>

text \<open>
  Between two operations of the dispatcher every elevator is idle with no journey handle,
  and stands on a floor of the building if the building has one; the fleet has the ids
  \<open>1, \<dots>, n\<close> in this order, and every journey in the database is ended.
\<close>

definition elevator_at_rest :: "int \<Rightarrow> elevator \<Rightarrow> bool" where
  "elevator_at_rest nfloors e =
     (status e = Idle \<and> current_journey_id e = None \<and> total_floors e = nfloors
      \<and> (0 < nfloors \<longrightarrow> 0 \<le> current_floor e \<and> current_floor e < nfloors))"

definition fleet_at_rest :: "int \<Rightarrow> int \<Rightarrow> system \<Rightarrow> bool" where
  "fleet_at_rest n nfloors s =
     (num_elevators s = n \<and> num_floors s = nfloors
      \<and> map elev_id (elevators s) = [1..n]
      \<and> list_all (elevator_at_rest nfloors) (elevators s)
      \<and> list_all (\<lambda>j. j_end_floor j \<noteq> None) (journeys (db s)))"

section \<open>Basic facts about the database and the elevator\<close>

lemma fold_max_ge: "(a::int) \<le> fold max xs a"
  by (induction xs arbitrary: a) (auto intro: order_trans [OF max.cobounded2])

lemma fold_max_mem: "(x::int) \<in> set xs \<Longrightarrow> x \<le> fold max xs a"
proof (induction xs arbitrary: a)
  case Nil
  then show ?case by simp
next
  case (Cons y ys)
  show ?case
  proof (cases "x = y")
    case True
    have "x \<le> max y a" using True by simp
    also have "\<dots> \<le> fold max ys (max y a)" by (rule fold_max_ge)
    finally show ?thesis by simp
  next
    case False
    with Cons show ?thesis by simp
  qed
qed

lemma lastrowid_positive: "1 \<le> lastrowid ids"
  using fold_max_ge [of 0 ids] by (simp add: lastrowid_def)

lemma lastrowid_fresh: "x \<in> set ids \<Longrightarrow> x < lastrowid ids"
  using fold_max_mem [of x ids 0] by (simp add: lastrowid_def)


section \<open>Moving to the floor the elevator is at\<close>

text \<open>
  C7. \<^verbatim>\<open>move\<close> with the elevator's own floor as destination returns 0 and leaves the
  elevator (floor, status, resting handle) and the database (tables and received calls)
  as they were: nothing is notified, no resting period is closed or opened.
\<close>

theorem move_to_current_floor_is_noop:
  "move e (current_floor e) d = (0, e, d)
   \<and> current_floor (fst (snd (move e (current_floor e) d))) = current_floor e
   \<and> status (fst (snd (move e (current_floor e) d))) = status e
   \<and> current_resting_id (fst (snd (move e (current_floor e) d))) = current_resting_id e
   \<and> calls (snd (snd (move e (current_floor e) d))) = calls d
   \<and> resting_periods (snd (snd (move e (current_floor e) d))) = resting_periods d"
  by (simp add: move_def)

section \<open>Validation of a request\<close>



text \<open>
  C10. A request that fails validation leaves the system as it was: the database has the
  same demands, journeys and received calls, and every elevator its floor, status and
  handles.
\<close>

theorem invalid_request_changes_nothing:
  "origin = destination \<or> origin < 0 \<or> num_floors s \<le> origin
     \<or> destination < 0 \<or> num_floors s \<le> destination \<Longrightarrow>
   snd (request_elevator s origin destination) = s
   \<and> demands (db (snd (request_elevator s origin destination))) = demands (db s)
   \<and> journeys (db (snd (request_elevator s origin destination))) = journeys (db s)
   \<and> calls (db (snd (request_elevator s origin destination))) = calls (db s)
   \<and> elevators (snd (request_elevator s origin destination)) = elevators s"
  by (auto simp: request_elevator_def)

theorem invalid_request_changes_nothing_witness:
  "snd (request_elevator (run 3 10 ElevatorDatabase_init []) 3 3)
     = run 3 10 ElevatorDatabase_init []
   \<and> snd (request_elevator (run 3 10 ElevatorDatabase_init []) 3 20)
     = run 3 10 ElevatorDatabase_init []"
proof -
  have n: "num_floors (run 3 10 ElevatorDatabase_init []) = 10"
    by code_simp
  have a: "(3::int) = 3 \<or> (3::int) < 0 \<or> num_floors (run 3 10 ElevatorDatabase_init []) \<le> 3
     \<or> (3::int) < 0 \<or> num_floors (run 3 10 ElevatorDatabase_init []) \<le> 3"
    by simp
  have b: "(3::int) = 20 \<or> (3::int) < 0 \<or> num_floors (run 3 10 ElevatorDatabase_init []) \<le> 3
     \<or> (20::int) < 0 \<or> num_floors (run 3 10 ElevatorDatabase_init []) \<le> 20"
    unfolding n by simp
  show ?thesis
    using invalid_request_changes_nothing [OF a] invalid_request_changes_nothing [OF b]
    by simp
qed

section \<open>Starting a journey while one is open\<close>

text \<open>
  C2, as the code has it. \<^verbatim>\<open>start_journey\<close> has no precondition and never fails:
  whatever handle the elevator holds, it inserts a new open journey row, whose id differs
  from the id of every journey already in the table, returns that id and stores it as
  the elevator's journey handle; the rows already in the table, the earlier open journey
  among them, stay as they are.
\<close>

theorem start_journey_replaces_handle:
  "start_journey e start_floor passenger_count d = (jid, e', d') \<longleftrightarrow>
     jid = lastrowid (map j_id (journeys d))
     \<and> e' = e\<lparr>current_journey_id := Some (lastrowid (map j_id (journeys d)))\<rparr>
     \<and> d' = snd (db_start_journey d (elev_id e) start_floor passenger_count)
     \<and> lastrowid (map j_id (journeys d)) \<notin> set (map j_id (journeys d))
     \<and> journeys (snd (db_start_journey d (elev_id e) start_floor passenger_count))
         = journeys d @
           [\<lparr>j_id = lastrowid (map j_id (journeys d)), j_elevator_id = elev_id e,
             j_start_floor = start_floor, j_end_floor = None,
             j_passenger_count = passenger_count\<rparr>]"
proof -
  have "lastrowid (map j_id (journeys d)) \<notin> set (map j_id (journeys d))"
    using lastrowid_fresh [of "lastrowid (map j_id (journeys d))" "map j_id (journeys d)"]
    by auto
  then show ?thesis
    by (auto simp: start_journey_def db_start_journey_def Let_def)
qed

text \<open>
  The claim as the specification states it fails: an elevator whose journey 1 is open
  starts another journey; the call returns the new id 2 and the handle is replaced.
\<close>

theorem start_journey_overwrites_counterexample:
  "start_journey
     \<lparr>elev_id = 1, current_floor = 0, status = Idle, total_floors = 10,
       current_resting_id = Some 1, current_journey_id = Some 1\<rparr> 0 1
     \<lparr>elevators_tbl = [(1, 0, Idle)], demands = [],
       journeys = [\<lparr>j_id = 1, j_elevator_id = 1, j_start_floor = 0, j_end_floor = None,
                    j_passenger_count = 1\<rparr>],
       resting_periods = [\<lparr>r_id = 1, r_elevator_id = 1, r_floor = 0, r_ended = False\<rparr>],
       calls = [InitializeElevators 1 10, UpdateElevatorStatus 1 0 Idle,
                StartRestingPeriod 1 1 0, StartJourney 1 1 0 1]\<rparr>
   = (2,
      \<lparr>elev_id = 1, current_floor = 0, status = Idle, total_floors = 10,
        current_resting_id = Some 1, current_journey_id = Some 2\<rparr>,
      \<lparr>elevators_tbl = [(1, 0, Idle)], demands = [],
        journeys = [\<lparr>j_id = 1, j_elevator_id = 1, j_start_floor = 0, j_end_floor = None,
                     j_passenger_count = 1\<rparr>,
                    \<lparr>j_id = 2, j_elevator_id = 1, j_start_floor = 0, j_end_floor = None,
                     j_passenger_count = 1\<rparr>],
        resting_periods = [\<lparr>r_id = 1, r_elevator_id = 1, r_floor = 0, r_ended = False\<rparr>],
        calls = [InitializeElevators 1 10, UpdateElevatorStatus 1 0 Idle,
                 StartRestingPeriod 1 1 0, StartJourney 1 1 0 1, StartJourney 2 1 0 1]\<rparr>)"
  by (simp add: start_journey_def db_start_journey_def lastrowid_def)

section \<open>The steps of a request\<close>

lemma move_time [simp]: "fst (move e t d) = \<bar>t - current_floor e\<bar>"
  by (simp add: move_def Let_def split_def)

lemma move_floor [simp]: "current_floor (fst (snd (move e t d))) = t"
  by (simp add: move_def Let_def split_def)

lemma move_status [simp]:
  "status (fst (snd (move e t d))) = (if current_floor e = t then status e else Idle)"
  by (simp add: move_def Let_def split_def)

lemma move_elev_id [simp]: "elev_id (fst (snd (move e t d))) = elev_id e"
  by (simp add: move_def Let_def split_def)

lemma move_total_floors [simp]: "total_floors (fst (snd (move e t d))) = total_floors e"
  by (simp add: move_def Let_def split_def)

lemma move_journey_id [simp]:
  "current_journey_id (fst (snd (move e t d))) = current_journey_id e"
  by (simp add: move_def Let_def split_def)

lemma move_demands [simp]: "demands (snd (snd (move e t d))) = demands d"
  by (simp add: move_def Let_def split_def update_elevator_status_def
      start_resting_period_def end_resting_period_def)

lemma move_journeys [simp]: "journeys (snd (snd (move e t d))) = journeys d"
  by (simp add: move_def Let_def split_def update_elevator_status_def
      start_resting_period_def end_resting_period_def)

lemma start_journey_fields [simp]:
  "elev_id (fst (snd (start_journey e f p d))) = elev_id e"
  "current_floor (fst (snd (start_journey e f p d))) = current_floor e"
  "status (fst (snd (start_journey e f p d))) = status e"
  "total_floors (fst (snd (start_journey e f p d))) = total_floors e"
  "current_journey_id (fst (snd (start_journey e f p d))) = Some (lastrowid (map j_id (journeys d)))"
  by (simp_all add: start_journey_def db_start_journey_def Let_def split_def)

lemma start_journey_db [simp]:
  "demands (snd (snd (start_journey e f p d))) = demands d"
  "journeys (snd (snd (start_journey e f p d))) = journeys d @
     [\<lparr>j_id = lastrowid (map j_id (journeys d)), j_elevator_id = elev_id e,
       j_start_floor = f, j_end_floor = None, j_passenger_count = p\<rparr>]"
  by (simp_all add: start_journey_def db_start_journey_def Let_def split_def)

lemma truthy_lastrowid [simp]: "truthy (Some (lastrowid ids))"
  using lastrowid_positive [of ids] by (simp add: truthy_def)

lemma end_journey_fields [simp]:
  "elev_id (fst (end_journey e f d)) = elev_id e"
  "current_floor (fst (end_journey e f d)) = current_floor e"
  "status (fst (end_journey e f d)) = status e"
  "total_floors (fst (end_journey e f d)) = total_floors e"
  "current_resting_id (fst (end_journey e f d)) = current_resting_id e"
  "current_journey_id (fst (end_journey e f d)) =
     (if truthy (current_journey_id e) then None else current_journey_id e)"
  by (simp_all add: end_journey_def)

lemma end_journey_db [simp]:
  "demands (snd (end_journey e f d)) = demands d"
  "journeys (snd (end_journey e f d)) =
     (if truthy (current_journey_id e)
      then map (\<lambda>j. if j_id j = the (current_journey_id e) then j\<lparr>j_end_floor := Some f\<rparr> else j)
             (journeys d)
      else journeys d)"
  by (simp_all add: end_journey_def db_end_journey_def)

lemma record_demand_db [simp]:
  "demands (snd (record_demand d a b i w)) = demands d @
     [\<lparr>d_id = lastrowid (map d_id (demands d)), d_origin_floor = a,
       d_destination_floor = b, d_elevator_id = i, d_wait_time = w\<rparr>]"
  "journeys (snd (record_demand d a b i w)) = journeys d"
  by (simp_all add: record_demand_def Let_def)

lemma closest_char:
  "closest es origin i (a, m) = (r, m') \<Longrightarrow>
     (r = a \<and> m' = m \<and> (\<forall>e \<in> set es. \<not> below \<bar>current_floor e - origin\<bar> m))
   \<or> (\<exists>j < length es. r = Some (i + j) \<and> m' = Some \<bar>current_floor (es ! j) - origin\<bar>
        \<and> below \<bar>current_floor (es ! j) - origin\<bar> m
        \<and> (\<forall>j' < j. \<bar>current_floor (es ! j) - origin\<bar> < \<bar>current_floor (es ! j') - origin\<bar>)
        \<and> (\<forall>j' < length es. \<bar>current_floor (es ! j) - origin\<bar> \<le> \<bar>current_floor (es ! j') - origin\<bar>))"
proof (induction es arbitrary: i a m)
  case Nil
  then show ?case by simp
next
  case (Cons e es)
  let ?d = "\<bar>current_floor e - origin\<bar>"
  show ?case
  proof (cases "below ?d m")
    case True
    with Cons.prems have "closest es origin (Suc i) (Some i, Some ?d) = (r, m')"
      by (simp add: Let_def)
    from Cons.IH [OF this] show ?thesis
    proof
      assume h: "r = Some i \<and> m' = Some ?d \<and> (\<forall>e' \<in> set es. \<not> below \<bar>current_floor e' - origin\<bar> (Some ?d))"
      have "\<forall>j' < length (e # es). ?d \<le> \<bar>current_floor ((e # es) ! j') - origin\<bar>"
      proof (intro allI impI)
        fix j' assume "j' < length (e # es)"
        then show "?d \<le> \<bar>current_floor ((e # es) ! j') - origin\<bar>"
          using h by (cases j') (auto simp: below_def not_less)
      qed
      with h True have "0 < length (e # es) \<and> r = Some (i + 0) \<and> m' = Some \<bar>current_floor ((e # es) ! 0) - origin\<bar>
        \<and> below \<bar>current_floor ((e # es) ! 0) - origin\<bar> m
        \<and> (\<forall>j' < 0. \<bar>current_floor ((e # es) ! 0) - origin\<bar> < \<bar>current_floor ((e # es) ! j') - origin\<bar>)
        \<and> (\<forall>j' < length (e # es). \<bar>current_floor ((e # es) ! 0) - origin\<bar> \<le> \<bar>current_floor ((e # es) ! j') - origin\<bar>)"
        by simp
      then show ?thesis by blast
    next
      assume "\<exists>j < length es. r = Some (Suc i + j) \<and> m' = Some \<bar>current_floor (es ! j) - origin\<bar>
        \<and> below \<bar>current_floor (es ! j) - origin\<bar> (Some ?d)
        \<and> (\<forall>j' < j. \<bar>current_floor (es ! j) - origin\<bar> < \<bar>current_floor (es ! j') - origin\<bar>)
        \<and> (\<forall>j' < length es. \<bar>current_floor (es ! j) - origin\<bar> \<le> \<bar>current_floor (es ! j') - origin\<bar>)"
      then obtain j where j: "j < length es" "r = Some (Suc i + j)"
        "m' = Some \<bar>current_floor (es ! j) - origin\<bar>"
        "\<bar>current_floor (es ! j) - origin\<bar> < ?d"
        "\<forall>j' < j. \<bar>current_floor (es ! j) - origin\<bar> < \<bar>current_floor (es ! j') - origin\<bar>"
        "\<forall>j' < length es. \<bar>current_floor (es ! j) - origin\<bar> \<le> \<bar>current_floor (es ! j') - origin\<bar>"
        by (auto simp: below_def)
      have b: "below \<bar>current_floor (es ! j) - origin\<bar> m"
        using True j(4) by (auto simp: below_def split: option.splits)
      have f: "\<forall>j' < Suc j. \<bar>current_floor (es ! j) - origin\<bar> < \<bar>current_floor ((e # es) ! j') - origin\<bar>"
      proof (intro allI impI)
        fix j' assume "j' < Suc j"
        then show "\<bar>current_floor (es ! j) - origin\<bar> < \<bar>current_floor ((e # es) ! j') - origin\<bar>"
          using j(4,5) by (cases j') auto
      qed
      have g: "\<forall>j' < length (e # es). \<bar>current_floor (es ! j) - origin\<bar> \<le> \<bar>current_floor ((e # es) ! j') - origin\<bar>"
      proof (intro allI impI)
        fix j' assume "j' < length (e # es)"
        then show "\<bar>current_floor (es ! j) - origin\<bar> \<le> \<bar>current_floor ((e # es) ! j') - origin\<bar>"
          using j(4,6) by (cases j') auto
      qed
      have "Suc j < length (e # es) \<and> r = Some (i + Suc j)
        \<and> m' = Some \<bar>current_floor ((e # es) ! Suc j) - origin\<bar>
        \<and> below \<bar>current_floor ((e # es) ! Suc j) - origin\<bar> m
        \<and> (\<forall>j' < Suc j. \<bar>current_floor ((e # es) ! Suc j) - origin\<bar> < \<bar>current_floor ((e # es) ! j') - origin\<bar>)
        \<and> (\<forall>j' < length (e # es). \<bar>current_floor ((e # es) ! Suc j) - origin\<bar> \<le> \<bar>current_floor ((e # es) ! j') - origin\<bar>)"
        using j(1,2,3) b f g by simp
      then show ?thesis by blast
    qed
  next
    case False
    with Cons.prems have "closest es origin (Suc i) (a, m) = (r, m')"
      by (simp add: Let_def)
    from Cons.IH [OF this] show ?thesis
    proof
      assume "r = a \<and> m' = m \<and> (\<forall>e' \<in> set es. \<not> below \<bar>current_floor e' - origin\<bar> m)"
      with False show ?thesis by simp
    next
      assume "\<exists>j < length es. r = Some (Suc i + j) \<and> m' = Some \<bar>current_floor (es ! j) - origin\<bar>
        \<and> below \<bar>current_floor (es ! j) - origin\<bar> m
        \<and> (\<forall>j' < j. \<bar>current_floor (es ! j) - origin\<bar> < \<bar>current_floor (es ! j') - origin\<bar>)
        \<and> (\<forall>j' < length es. \<bar>current_floor (es ! j) - origin\<bar> \<le> \<bar>current_floor (es ! j') - origin\<bar>)"
      then obtain j where j: "j < length es" "r = Some (Suc i + j)"
        "m' = Some \<bar>current_floor (es ! j) - origin\<bar>"
        "below \<bar>current_floor (es ! j) - origin\<bar> m"
        "\<forall>j' < j. \<bar>current_floor (es ! j) - origin\<bar> < \<bar>current_floor (es ! j') - origin\<bar>"
        "\<forall>j' < length es. \<bar>current_floor (es ! j) - origin\<bar> \<le> \<bar>current_floor (es ! j') - origin\<bar>"
        by auto
      have lt: "\<bar>current_floor (es ! j) - origin\<bar> < ?d"
        using False j(4) by (auto simp: below_def split: option.splits)
      have f: "\<forall>j' < Suc j. \<bar>current_floor (es ! j) - origin\<bar> < \<bar>current_floor ((e # es) ! j') - origin\<bar>"
      proof (intro allI impI)
        fix j' assume "j' < Suc j"
        then show "\<bar>current_floor (es ! j) - origin\<bar> < \<bar>current_floor ((e # es) ! j') - origin\<bar>"
          using lt j(5) by (cases j') auto
      qed
      have g: "\<forall>j' < length (e # es). \<bar>current_floor (es ! j) - origin\<bar> \<le> \<bar>current_floor ((e # es) ! j') - origin\<bar>"
      proof (intro allI impI)
        fix j' assume "j' < length (e # es)"
        then show "\<bar>current_floor (es ! j) - origin\<bar> \<le> \<bar>current_floor ((e # es) ! j') - origin\<bar>"
          using lt j(6) by (cases j') auto
      qed
      have "Suc j < length (e # es) \<and> r = Some (i + Suc j)
        \<and> m' = Some \<bar>current_floor ((e # es) ! Suc j) - origin\<bar>
        \<and> below \<bar>current_floor ((e # es) ! Suc j) - origin\<bar> m
        \<and> (\<forall>j' < Suc j. \<bar>current_floor ((e # es) ! Suc j) - origin\<bar> < \<bar>current_floor ((e # es) ! j') - origin\<bar>)
        \<and> (\<forall>j' < length (e # es). \<bar>current_floor ((e # es) ! Suc j) - origin\<bar> \<le> \<bar>current_floor ((e # es) ! j') - origin\<bar>)"
        using j(1,2,3,4) f g by simp
      then show ?thesis by blast
    qed
  qed
qed

lemma closest_nonempty:
  assumes "es \<noteq> []"
  obtains k m where "closest es origin 0 (None, None) = (Some k, Some m)" "k < length es"
    "m = \<bar>current_floor (es ! k) - origin\<bar>"
    "\<forall>j < k. \<bar>current_floor (es ! k) - origin\<bar> < \<bar>current_floor (es ! j) - origin\<bar>"
    "\<forall>j < length es. \<bar>current_floor (es ! k) - origin\<bar> \<le> \<bar>current_floor (es ! j) - origin\<bar>"
proof -
  obtain r m' where c: "closest es origin 0 (None, None) = (r, m')"
    by (cases "closest es origin 0 (None, None)")
  from assms obtain e where "e \<in> set es" by (cases es) auto
  then have "\<not> (\<forall>e \<in> set es. \<not> below \<bar>current_floor e - origin\<bar> None)"
    by (auto simp: below_def)
  with closest_char [OF c] obtain j where "j < length es" "r = Some (0 + j)"
    "m' = Some \<bar>current_floor (es ! j) - origin\<bar>"
    "\<forall>j' < j. \<bar>current_floor (es ! j) - origin\<bar> < \<bar>current_floor (es ! j') - origin\<bar>"
    "\<forall>j' < length es. \<bar>current_floor (es ! j) - origin\<bar> \<le> \<bar>current_floor (es ! j') - origin\<bar>"
    by blast
  with c that show thesis by simp
qed

lemma request_elevator_valid:
  assumes v: "a \<noteq> b" "0 \<le> a" "a < num_floors s" "0 \<le> b" "b < num_floors s"
    and ne: "elevators s \<noteq> []"
  obtains (assigned) k e' D where
    "k < length (elevators s)"
    "\<forall>j < k. \<bar>current_floor (elevators s ! k) - a\<bar> < \<bar>current_floor (elevators s ! j) - a\<bar>"
    "\<forall>j < length (elevators s).
        \<bar>current_floor (elevators s ! k) - a\<bar> \<le> \<bar>current_floor (elevators s ! j) - a\<bar>"
    "request_elevator s a b =
       (Inr (elev_id (elevators s ! k), \<bar>current_floor (elevators s ! k) - a\<bar> + \<bar>a - b\<bar>),
        s\<lparr>db := D, elevators := (elevators s)[k := e']\<rparr>)"
    "elev_id e' = elev_id (elevators s ! k)" "current_floor e' = b" "status e' = Idle"
    "total_floors e' = total_floors (elevators s ! k)" "current_journey_id e' = None"
    "length (demands D) = Suc (length (demands (db s)))"
    "length (journeys D) = Suc (length (journeys (db s)))"
    "(\<forall>j \<in> set (journeys (db s)). j_end_floor j \<noteq> None) \<longrightarrow> (\<forall>j \<in> set (journeys D). j_end_floor j \<noteq> None)"
proof -
  from closest_nonempty [OF ne, of a] obtain k m where
    c: "closest (elevators s) a 0 (None, None) = (Some k, Some m)" and k: "k < length (elevators s)"
    and m: "m = \<bar>current_floor (elevators s ! k) - a\<bar>"
    and first: "\<forall>j < k. \<bar>current_floor (elevators s ! k) - a\<bar> < \<bar>current_floor (elevators s ! j) - a\<bar>"
    and least: "\<forall>j < length (elevators s).
        \<bar>current_floor (elevators s ! k) - a\<bar> \<le> \<bar>current_floor (elevators s ! j) - a\<bar>"
    by blast
  let ?e0 = "elevators s ! k"
  let ?d1 = "snd (record_demand (db s) a b (elev_id ?e0) (Some m))"
  let ?sj = "start_journey ?e0 (current_floor ?e0) 1 ?d1"
  let ?m1 = "move (fst (snd ?sj)) a (snd (snd ?sj))"
  let ?m2 = "move (fst (snd ?m1)) b (snd (snd ?m1))"
  let ?ej = "end_journey (fst (snd ?m2)) b (snd (snd ?m2))"
  have r: "request_elevator s a b =
       (Inr (elev_id ?e0, \<bar>current_floor ?e0 - a\<bar> + \<bar>a - b\<bar>),
        s\<lparr>db := snd ?ej, elevators := (elevators s)[k := fst ?ej]\<rparr>)"
    using v c by (simp add: request_elevator_def Let_def split_def abs_minus_commute)
  have j: "(\<forall>j \<in> set (journeys (db s)). j_end_floor j \<noteq> None) \<longrightarrow>
     (\<forall>j \<in> set (journeys (snd ?ej)). j_end_floor j \<noteq> None)"
    by auto
  show thesis
    by (rule that [OF k first least r _ _ _ _ _ _ _ j]) (use v in simp_all)
qed

section \<open>The invariant of the fleet holds throughout a session\<close>

lemma request_elevator_cases:
  obtains (unchanged) "snd (request_elevator s a b) = s" "\<forall>r. fst (request_elevator s a b) \<noteq> Inr r"
  | (served) "a \<noteq> b" "0 \<le> a" "a < num_floors s" "0 \<le> b" "b < num_floors s" "elevators s \<noteq> []"
proof (cases "a \<noteq> b \<and> 0 \<le> a \<and> a < num_floors s \<and> 0 \<le> b \<and> b < num_floors s")
  case False
  then have "snd (request_elevator s a b) = s" "\<forall>r. fst (request_elevator s a b) \<noteq> Inr r"
    by (auto simp: request_elevator_def)
  then show thesis by (rule unchanged)
next
  case v: True
  show thesis
  proof (cases "elevators s = []")
    case True
    with v have "snd (request_elevator s a b) = s" "\<forall>r. fst (request_elevator s a b) \<noteq> Inr r"
      by (auto simp: request_elevator_def)
    then show thesis by (rule unchanged)
  next
    case False
    with v show thesis using served by blast
  qed
qed

lemma Elevator_init_fields [simp]:
  "elev_id (fst (Elevator_init i f d)) = i"
  "current_floor (fst (Elevator_init i f d)) = 0"
  "status (fst (Elevator_init i f d)) = Idle"
  "total_floors (fst (Elevator_init i f d)) = f"
  "current_journey_id (fst (Elevator_init i f d)) = None"
  by (simp_all add: Elevator_init_def start_resting_def Let_def split_def)

lemma Elevator_init_db [simp]:
  "demands (snd (Elevator_init i f d)) = demands d"
  "journeys (snd (Elevator_init i f d)) = journeys d"
  by (simp_all add: Elevator_init_def start_resting_def Let_def split_def
      update_elevator_status_def start_resting_period_def)

lemma create_elevators_ids:
  "map elev_id (fst (create_elevators ids f es d)) = map elev_id es @ ids"
  by (induction ids arbitrary: es d) (simp_all add: split_def Let_def)

lemma create_elevators_all:
  "list_all P es \<Longrightarrow> (\<And>i d. P (fst (Elevator_init i f d))) \<Longrightarrow>
   list_all P (fst (create_elevators ids f es d))"
  by (induction ids arbitrary: es d) (simp_all add: split_def Let_def)

lemma create_elevators_db [simp]:
  "demands (snd (create_elevators ids f es d)) = demands d"
  "journeys (snd (create_elevators ids f es d)) = journeys d"
  by (induction ids arbitrary: es d) (simp_all add: split_def Let_def)

lemma ElevatorSystem_init_tables [simp]:
  "demands (db (ElevatorSystem_init n f d)) = []"
  "journeys (db (ElevatorSystem_init n f d)) = []"
  by (simp_all add: ElevatorSystem_init_def split_def Let_def initialize_elevators_def)

lemma fleet_at_rest_init: "fleet_at_rest n f (ElevatorSystem_init n f d)"
  unfolding fleet_at_rest_def
  by (simp add: ElevatorSystem_init_def split_def Let_def create_elevators_ids
      create_elevators_all elevator_at_rest_def initialize_elevators_def)

lemma resting_loop_ids [simp]:
  "map elev_id (fst (snd (resting_loop es i t d))) = map elev_id es"
  by (induction es) (simp_all add: split_def Let_def move_to_optimal_resting_floor_def)

lemma resting_loop_tables [simp]:
  "demands (snd (snd (resting_loop es i t d))) = demands d"
  "journeys (snd (snd (resting_loop es i t d))) = journeys d"
  by (induction es) (simp_all add: split_def Let_def move_to_optimal_resting_floor_def)

lemma resting_loop_all:
  assumes "list_all P es"
    and step: "\<And>e d. P e \<Longrightarrow> status e = Idle \<Longrightarrow> P (fst (snd (move e t d)))"
  shows "list_all P (fst (snd (resting_loop es i t d)))"
  using assms(1)
proof (induction es)
  case Nil
  then show ?case by simp
next
  case (Cons e es)
  show ?case
  proof (cases "elev_id e = i \<and> status e = Idle")
    case True
    then have "P (fst (snd (move e t d)))"
      using Cons.prems step by simp
    with True Cons.prems show ?thesis
      by (simp add: split_def Let_def move_to_optimal_resting_floor_def)
  next
    case False
    with False Cons show ?thesis by (auto simp: split_def Let_def)
  qed
qed

lemma fleet_at_rest_reposition:
  assumes "fleet_at_rest n f s"
  shows "fleet_at_rest n f (snd (move_elevator_to_resting_floor s i t))"
proof (cases "0 \<le> t \<and> t < num_floors s")
  case False
  with assms show ?thesis by (simp add: move_elevator_to_resting_floor_def)
next
  case True
  have "list_all (elevator_at_rest f) (fst (snd (resting_loop (elevators s) i t (db s))))"
  proof (rule resting_loop_all)
    show "list_all (elevator_at_rest f) (elevators s)"
      using assms by (simp add: fleet_at_rest_def)
  next
    fix e d
    assume "elevator_at_rest f e" "status e = Idle"
    then show "elevator_at_rest f (fst (snd (move e t d)))"
      using True assms by (simp add: elevator_at_rest_def fleet_at_rest_def)
  qed
  with True assms show ?thesis
    by (simp add: move_elevator_to_resting_floor_def split_def Let_def fleet_at_rest_def)
qed

lemma fleet_at_rest_request:
  assumes "fleet_at_rest n f s"
  shows "fleet_at_rest n f (snd (request_elevator s a b))"
proof (cases s a b rule: request_elevator_cases)
  case unchanged
  with assms show ?thesis by simp
next
  case served
  from served show ?thesis
  proof (cases rule: request_elevator_valid)
    case (assigned k e' D)
    have ids: "map elev_id ((elevators s)[k := e']) = map elev_id (elevators s)"
      using assigned(1,5) by (simp add: map_update list_update_same_conv)
    have "elevator_at_rest f (elevators s ! k)"
      using assms assigned(1) by (simp add: fleet_at_rest_def list_all_length)
    then have "elevator_at_rest f e'"
      using assigned(5-9) served assms by (simp add: elevator_at_rest_def fleet_at_rest_def)
    moreover have "list_all (elevator_at_rest f) (elevators s)"
      using assms by (simp add: fleet_at_rest_def)
    ultimately have "list_all (elevator_at_rest f) ((elevators s)[k := e'])"
      using assigned(1) by (auto simp: list_all_length nth_list_update)
    moreover have "list_all (\<lambda>j. j_end_floor j \<noteq> None) (journeys D)"
      using assms assigned(12) by (simp add: fleet_at_rest_def list_all_iff)
    moreover have "map elev_id ((elevators s)[k := e']) = [1..n]"
      using assms ids by (simp add: fleet_at_rest_def)
    moreover have "num_elevators s = n" "num_floors s = f"
      using assms by (simp_all add: fleet_at_rest_def)
    ultimately show ?thesis
      unfolding assigned(4) fleet_at_rest_def by simp
  qed
qed

lemma fleet_at_rest_exec: "fleet_at_rest n f s \<Longrightarrow> fleet_at_rest n f (exec s c)"
  by (cases c) (simp_all add: fleet_at_rest_request fleet_at_rest_reposition)

lemma fleet_at_rest_foldl: "fleet_at_rest n f s \<Longrightarrow> fleet_at_rest n f (foldl exec s cmds)"
  by (induction cmds arbitrary: s) (simp_all add: fleet_at_rest_exec)

lemma fleet_at_rest_run: "fleet_at_rest n f (run n f d cmds)"
  by (simp add: run_def fleet_at_rest_foldl fleet_at_rest_init)

section \<open>Floors stay inside the building\<close>

text \<open>
  C9. In a building with at least one floor, every elevator of the fleet stands on a
  floor in \<open>[0, num_floors)\<close> when the fleet is created and after any sequence of
  dispatcher operations (requests, repositionings, status queries), although
  \<^verbatim>\<open>Elevator.move\<close> itself goes to whatever floor it is given.
\<close>

theorem floors_stay_in_range:
  "0 < nfloors \<Longrightarrow> e \<in> set (elevators (run n nfloors d cmds)) \<Longrightarrow>
   0 \<le> current_floor e \<and> current_floor e < nfloors
   \<and> num_floors (run n nfloors d cmds) = nfloors
   \<and> current_floor (fst (snd (move e t d'))) = t"
  using fleet_at_rest_run [of n nfloors d cmds]
  by (simp add: fleet_at_rest_def elevator_at_rest_def list_all_iff)

theorem floors_stay_in_range_witness:
  "list_all (\<lambda>e. 0 \<le> current_floor e \<and> current_floor e < 10)
     (elevators (run 3 10 ElevatorDatabase_init
        [RequestElevator 3 7, MoveElevatorToRestingFloor 2 9, GetElevatorsStatus,
         RequestElevator 9 0, MoveElevatorToRestingFloor 1 10]))
   \<and> map current_floor (elevators (run 3 10 ElevatorDatabase_init
        [RequestElevator 3 7, MoveElevatorToRestingFloor 2 9, GetElevatorsStatus,
         RequestElevator 9 0, MoveElevatorToRestingFloor 1 10])) = [7, 0, 0]"
proof -
  let ?s = "run 3 10 ElevatorDatabase_init
        [RequestElevator 3 7, MoveElevatorToRestingFloor 2 9, GetElevatorsStatus,
         RequestElevator 9 0, MoveElevatorToRestingFloor 1 10]"
  have z: "(0::int) < 10" by simp
  have "\<forall>e \<in> set (elevators ?s). 0 \<le> current_floor e \<and> current_floor e < 10"
    using floors_stay_in_range [OF z] by blast
  moreover have "map current_floor (elevators ?s) = [7, 0, 0]"
    by code_simp
  ultimately show ?thesis by (simp add: list_all_iff)
qed

section \<open>Serving a valid request\<close>





section \<open>Which elevator is chosen\<close>

text \<open>
  C6. For a valid request the chosen elevator is one of the fleet whose distance to the
  origin is the least among all elevators of the fleet, whatever their status, and among
  those at that least distance the one with the lowest id, the fleet being scanned in
  ascending order of ids.
\<close>

theorem nearest_elevator_lowest_id_wins:
  assumes "origin \<noteq> destination" "0 \<le> origin" "origin < num_floors s"
    "0 \<le> destination" "destination < num_floors s"
    and "elevators s \<noteq> []" and asc: "sorted_wrt (<) (map elev_id (elevators s))"
  shows "\<exists>e t. e \<in> set (elevators s)
     \<and> fst (request_elevator s origin destination) = Inr (elev_id e, t)
     \<and> (\<forall>e' \<in> set (elevators s).
          \<bar>current_floor e - origin\<bar> \<le> \<bar>current_floor e' - origin\<bar>)
     \<and> (\<forall>e' \<in> set (elevators s).
          \<bar>current_floor e' - origin\<bar> = \<bar>current_floor e - origin\<bar> \<longrightarrow> elev_id e \<le> elev_id e')"
  using assms(1-6)
proof (cases rule: request_elevator_valid)
  case (assigned k e' D)
  let ?e = "elevators s ! k"
  have a: "?e \<in> set (elevators s)" using assigned(1) by simp
  have b: "fst (request_elevator s origin destination)
      = Inr (elev_id ?e, \<bar>current_floor ?e - origin\<bar> + \<bar>origin - destination\<bar>)"
    by (simp add: assigned(4))
  have c: "\<forall>x \<in> set (elevators s). \<bar>current_floor ?e - origin\<bar> \<le> \<bar>current_floor x - origin\<bar>"
    using assigned(3) by (auto simp: in_set_conv_nth)
  have d: "\<forall>x \<in> set (elevators s).
     \<bar>current_floor x - origin\<bar> = \<bar>current_floor ?e - origin\<bar> \<longrightarrow> elev_id ?e \<le> elev_id x"
  proof (intro ballI impI)
    fix x assume "x \<in> set (elevators s)"
      and eq: "\<bar>current_floor x - origin\<bar> = \<bar>current_floor ?e - origin\<bar>"
    then obtain j where j: "j < length (elevators s)" "x = elevators s ! j"
      by (auto simp: in_set_conv_nth)
    have "\<not> j < k" using assigned(2) eq j(2) by auto
    then have "k = j \<or> k < j" by auto
    then show "elev_id ?e \<le> elev_id x"
    proof
      assume "k = j"
      with j show ?thesis by simp
    next
      assume "k < j"
      then have "map elev_id (elevators s) ! k < map elev_id (elevators s) ! j"
        using sorted_wrt_nth_less [OF asc] j(1) by simp
      with \<open>k < j\<close> j show ?thesis by simp
    qed
  qed
  from a b c d show ?thesis by blast
qed

text \<open>The fleet of a session is always listed in ascending order of ids.\<close>

lemma run_ids_ascending: "sorted_wrt (<) (map elev_id (elevators (run n f d cmds)))"
  using fleet_at_rest_run [of n f d cmds] by (simp add: fleet_at_rest_def)

theorem nearest_elevator_lowest_id_wins_witness:
  "(\<exists>e t. e \<in> set (elevators busy_fleet)
     \<and> fst (request_elevator busy_fleet 5 8) = Inr (elev_id e, t)
     \<and> (\<forall>e' \<in> set (elevators busy_fleet). \<bar>current_floor e - 5\<bar> \<le> \<bar>current_floor e' - 5\<bar>)
     \<and> (\<forall>e' \<in> set (elevators busy_fleet).
          \<bar>current_floor e' - 5\<bar> = \<bar>current_floor e - 5\<bar> \<longrightarrow> elev_id e \<le> elev_id e'))
   \<and> fst (request_elevator busy_fleet 5 8) = Inr (2, 4)
   \<and> map status (elevators busy_fleet) = [Idle, MovingUp, Idle]"
proof -
  have h: "(5::int) \<noteq> 8" "(0::int) \<le> 5" "5 < num_floors busy_fleet" "(0::int) \<le> 8"
    "8 < num_floors busy_fleet" "elevators busy_fleet \<noteq> []"
    "sorted_wrt (<) (map elev_id (elevators busy_fleet))"
    by (simp_all add: busy_fleet_def)
  have "fst (request_elevator busy_fleet 5 8) = Inr (2, 4)"
    by code_simp
  moreover have "map status (elevators busy_fleet) = [Idle, MovingUp, Idle]"
    by (simp add: busy_fleet_def)
  ultimately show ?thesis
    using nearest_elevator_lowest_id_wins [OF h] by simp
qed

section \<open>Repositioning an idle elevator\<close>






section \<open>Sequences of completed requests\<close>

lemma request_all_counts:
  "fleet_at_rest n f s \<Longrightarrow> request_all s reqs = Inr s' \<Longrightarrow>
   length (demands (db s')) = length (demands (db s)) + length reqs
   \<and> length (journeys (db s')) = length (journeys (db s)) + length reqs
   \<and> fleet_at_rest n f s'"
proof (induction reqs arbitrary: s)
  case Nil
  then show ?case by simp
next
  case (Cons r rs)
  obtain a b where r: "r = (a, b)" by (cases r)
  show ?case
  proof (cases s a b rule: request_elevator_cases)
    case unchanged
    with Cons.prems(2) r show ?thesis
      by (auto split: prod.splits sum.splits)
  next
    case served
    from served show ?thesis
    proof (cases rule: request_elevator_valid)
      case (assigned k e' D)
      let ?s1 = "s\<lparr>db := D, elevators := (elevators s)[k := e']\<rparr>"
      have s1: "snd (request_elevator s a b) = ?s1" by (simp add: assigned(4))
      have "fleet_at_rest n f ?s1"
        using fleet_at_rest_request [OF Cons.prems(1), of a b] s1 by simp
      moreover have "request_all ?s1 rs = Inr s'"
        using Cons.prems(2) r by (simp add: assigned(4))
      ultimately have "length (demands (db s')) = length (demands (db ?s1)) + length rs
        \<and> length (journeys (db s')) = length (journeys (db ?s1)) + length rs
        \<and> fleet_at_rest n f s'"
        by (rule Cons.IH)
      then show ?thesis using assigned(10,11) by simp
    qed
  qed
qed

text \<open>
  In a fleet of at least one elevator every sequence of valid requests completes.
\<close>

lemma request_all_completes:
  assumes "fleet_at_rest n f s" "1 \<le> n"
    and "list_all (\<lambda>(a, b). a \<noteq> b \<and> 0 \<le> a \<and> a < f \<and> 0 \<le> b \<and> b < f) reqs"
  shows "\<exists>s'. request_all s reqs = Inr s'"
  using assms(1,3)
proof (induction reqs arbitrary: s)
  case Nil
  then show ?case by simp
next
  case (Cons r rs)
  obtain a b where r: "r = (a, b)" by (cases r)
  have nf: "num_floors s = f" and m: "map elev_id (elevators s) = [1..n]"
    using Cons.prems(1) by (simp_all add: fleet_at_rest_def)
  have ne: "elevators s \<noteq> []"
  proof
    assume "elevators s = []"
    with m have "[1..n] = []" by simp
    with assms(2) show False by simp
  qed
  have v: "a \<noteq> b" "0 \<le> a" "a < num_floors s" "0 \<le> b" "b < num_floors s"
    using Cons.prems(2) r nf by simp_all
  from v ne show ?case
  proof (cases rule: request_elevator_valid)
    case (assigned k e' D)
    let ?s1 = "s\<lparr>db := D, elevators := (elevators s)[k := e']\<rparr>"
    have "snd (request_elevator s a b) = ?s1" by (simp add: assigned(4))
    then have "fleet_at_rest n f ?s1"
      using fleet_at_rest_request [OF Cons.prems(1), of a b] by simp
    moreover have "list_all (\<lambda>(a, b). a \<noteq> b \<and> 0 \<le> a \<and> a < f \<and> 0 \<le> b \<and> b < f) rs"
      using Cons.prems(2) by simp
    ultimately have "\<exists>s'. request_all ?s1 rs = Inr s'" by (rule Cons.IH)
    then show ?thesis by (simp add: r assigned(4))
  qed
qed

text \<open>
  C8. When \<open>N\<close> requests made one after the other on a newly created fleet have all
  completed, the database holds \<open>N\<close> demands and \<open>N\<close> journeys, every journey is ended,
  and no elevator holds a journey handle.
\<close>

theorem completed_requests_are_recorded:
  assumes "request_all (ElevatorSystem_init n nfloors d) reqs = Inr s'"
  shows "length (demands (db s')) = length reqs
     \<and> length (journeys (db s')) = length reqs
     \<and> list_all (\<lambda>j. j_end_floor j \<noteq> None) (journeys (db s'))
     \<and> list_all (\<lambda>e. current_journey_id e = None) (elevators s')"
proof -
  have "fleet_at_rest n nfloors (ElevatorSystem_init n nfloors d)"
    by (rule fleet_at_rest_init)
  from request_all_counts [OF this assms]
  show ?thesis
    by (simp add: fleet_at_rest_def elevator_at_rest_def list_all_iff)
qed

theorem completed_requests_are_recorded_witness:
  "length (demands (db (run 3 10 ElevatorDatabase_init
       [RequestElevator 1 8, RequestElevator 3 6, RequestElevator 9 2]))) = 3
   \<and> length (journeys (db (run 3 10 ElevatorDatabase_init
       [RequestElevator 1 8, RequestElevator 3 6, RequestElevator 9 2]))) = 3
   \<and> list_all (\<lambda>j. j_end_floor j \<noteq> None) (journeys (db (run 3 10 ElevatorDatabase_init
       [RequestElevator 1 8, RequestElevator 3 6, RequestElevator 9 2])))"
proof -
  have "request_all (ElevatorSystem_init 3 10 ElevatorDatabase_init) [(1, 8), (3, 6), (9, 2)]
     = Inr (run 3 10 ElevatorDatabase_init
       [RequestElevator 1 8, RequestElevator 3 6, RequestElevator 9 2])"
    by code_simp
  from completed_requests_are_recorded [OF this] show ?thesis by simp
qed

section \<open>Exclusive intervals along a sequence of calls\<close>









section \<open>The calls each step makes\<close>

lemma record_demand_calls [simp]:
  "calls (snd (record_demand d a b i w)) = calls d @ [RecordDemand a b i w]"
  "resting_periods (snd (record_demand d a b i w)) = resting_periods d"
  by (simp_all add: record_demand_def Let_def)

lemma start_journey_calls [simp]:
  "calls (snd (snd (start_journey e f p d)))
     = calls d @ [StartJourney (lastrowid (map j_id (journeys d))) (elev_id e) f p]"
  "resting_periods (snd (snd (start_journey e f p d))) = resting_periods d"
  "current_resting_id (fst (snd (start_journey e f p d))) = current_resting_id e"
  by (simp_all add: start_journey_def db_start_journey_def Let_def split_def)



section \<open>The open resting periods are those of the fleet\<close>







lemma end_journey_rest [simp]:
  "resting_periods (snd (end_journey e f d)) = resting_periods d"
  by (simp add: end_journey_def db_end_journey_def)



section \<open>Creating the fleet\<close>





section \<open>Every instant of a session\<close>





section \<open>Open journeys and resting periods during a session\<close>



end
